theory Spec2Isabelle
  imports Main
begin

section \<open>Values, frames and asynchronous results\<close>

text \<open>
  The source passes values of type \<open>any\<close>; they are modelled by a small universe of
  JavaScript values.  \<open>VError m\<close> stands for \<open>new Error(m)\<close>.  A parameter object
  (\<open>Record<string, any>\<close>) is an association list.
\<close>

datatype val = VUndefined | VNum int | VStr string | VObj "(string \<times> val) list" | VError string

type_synonym params = "(string \<times> val) list"

record EventFrame =
  ef_component :: string
  ef_event :: string
  ef_value :: val

record ApiCallFrame =
  cf_component :: string
  cf_id :: string
  cf_endpoint :: string
  cf_params :: params

record ApiResultFrame =
  rf_component :: string
  rf_id :: string
  rf_value :: val

record EndpointContext =
  ec_params :: params

text \<open>
  \<open>EndpointInfo\<close>.  The entries of \<open>params\<close> (a name, an optional test, an optional
  validator) are carried along; no code of the engine reads them.
\<close>

record ParamInfo =
  param_name :: string
  param_test :: "(val \<Rightarrow> bool) option"
  param_validator :: "val option"

record EndpointInfo =
  info_name :: string
  info_params :: "ParamInfo list"

text \<open>
  A function declared to return \<open>Promise<T>\<close> either returns a promise or throws before
  it returns one (a function that is not \<open>async\<close> can do that).  The promise it returns
  resolves with a value, rejects with an error, or stays pending forever; \<^emph>\<open>when\<close> it
  settles is decided by the schedule, not by the promise.  An endpoint handler and a
  component's entry point are such functions; each is modelled by the outcome of invoking
  it, as a function of its argument.
\<close>

datatype promise = Resolves val | Rejects val | Never

datatype invocation = Returned promise | Threw val

text \<open>
  Objects are referred to by reference.  Contexts, pending calls and listener functions
  are natural numbers: a context and a pending call by its index in the store below, an
  event listener by an opaque identity (the source compares listeners with \<open>==\<close>).
\<close>

type_synonym ctx_ref = nat
type_synonym call_ref = nat
type_synonym listener_ref = nat

record Component =
  comp_name :: string
  comp_start :: "ctx_ref \<Rightarrow> invocation"

record ComponentEntry =
  entry_ctx :: ctx_ref
  entry_start :: "unit \<Rightarrow> invocation"

record EventHandler =
  eh_component :: string
  eh_event :: string
  eh_listener :: listener_ref

record Api =
  endpoint :: string
  handler :: "EndpointContext \<Rightarrow> invocation"

record ComponentContext =
  name :: string
  eventHandlers :: "EventHandler list"
  apis :: "Api list"

section \<open>The platform: event emitter, timers, promises\<close>

text \<open>
  The engine's \<open>EventEmitter\<close> carries three event names.  The listeners under
  \<open>'event'\<close> and \<open>'api-call'\<close> are the root handlers of contexts, those under
  \<open>'api-result'\<close> are the \<open>once\<close> wrappers around the listener closures of calls; each
  is identified by its owner.
\<close>

record EventEmitter =
  on_event :: "ctx_ref list"
  on_api_call :: "ctx_ref list"
  on_api_result :: "call_ref list"

text \<open>\<open>EventEmitter.removeListener\<close> removes the most recently added matching listener.\<close>

definition emitter_removeListener :: "nat \<Rightarrow> nat list \<Rightarrow> nat list" where
  "emitter_removeListener x xs = rev (remove1 x (rev xs))"

text \<open>
  A timer made by \<open>setTimeout\<close> is armed with the time it is due, and later either
  cleared by \<open>clearTimeout\<close> or fired.  Time is a logical clock in milliseconds.
\<close>

datatype timer = Armed nat | Cleared | Fired

text \<open>
  The promise made by \<open>call\<close> records every settlement it is asked for: a call of
  \<open>resolve\<close>, a call of \<open>reject\<close>, or an exception leaving the executor (which the
  promise constructor turns into a rejection).  The state an observer sees is the first.
\<close>

datatype settlement = Resolve val | Reject val

record PendingCall =
  pc_id :: string
  pc_settled :: "settlement list"
  pc_timeoutHandle :: timer

datatype slot = Pending | Resolved val | Rejected val

fun slot_of :: "settlement list \<Rightarrow> slot" where
  "slot_of [] = Pending"
| "slot_of (Resolve v # _) = Resolved v"
| "slot_of (Reject e # _) = Rejected e"

text \<open>
  The promise returned by an endpoint handler, with the \<open>then\<close>/\<open>catch\<close> callbacks of
  \<open>rootApiHandler\<close> attached; and the promise returned by a component's entry point,
  with the \<open>catch\<close> callback of \<open>start\<close> attached.
\<close>

record HandlerJob =
  job_ctx :: ctx_ref
  job_frame_id :: string
  job_promise :: promise
  job_done :: bool

record StartJob =
  sj_name :: string
  sj_ctx :: ctx_ref
  sj_promise :: promise
  sj_done :: bool

section \<open>The engine and its store\<close>

text \<open>
  One engine: its \<open>entries\<close> and its \<open>event\<close> emitter, the store of the context
  objects it has built, the calls made so far, the promises in flight, the clock, and
  three logs: what \<open>console.log\<close> printed, which event listener was invoked by which
  context with which payload, and which result frames were emitted.

  \<open>entries\<close> is a JavaScript object used as a dictionary, listed here in the order in
  which \<open>Object.entries\<close> enumerates it: assignment to a new key appends, assignment to
  an existing key keeps the key's position.  Component names are taken to be ordinary
  property names (JavaScript enumerates names that are array indices first, and does not
  store one under \<open>__proto__\<close>).
\<close>

record system =
  entries :: "(string \<times> ComponentEntry) list"
  event :: EventEmitter
  contexts :: "ComponentContext list"
  calls :: "PendingCall list"
  handlerJobs :: "HandlerJob list"
  startJobs :: "StartJob list"
  clock :: nat
  console :: "val list"
  invoked :: "(ctx_ref \<times> listener_ref \<times> val) list"
  results :: "ApiResultFrame list"

definition new_ComponentEngine :: system where
  "new_ComponentEngine =
     \<lparr>entries = [], event = \<lparr>on_event = [], on_api_call = [], on_api_result = []\<rparr>,
      contexts = [], calls = [], handlerJobs = [], startJobs = [], clock = 0,
      console = [], invoked = [], results = []\<rparr>"

fun assign :: "string \<Rightarrow> 'a \<Rightarrow> (string \<times> 'a) list \<Rightarrow> (string \<times> 'a) list" where
  "assign k v [] = [(k, v)]"
| "assign k v ((k', v') # ps) = (if k' = k then (k, v) # ps else (k', v') # assign k v ps)"

fun findIndex :: "('a \<Rightarrow> bool) \<Rightarrow> 'a list \<Rightarrow> nat option" where
  "findIndex P [] = None"
| "findIndex P (x # xs) =
     (if P x then Some 0 else (case findIndex P xs of None \<Rightarrow> None | Some i \<Rightarrow> Some (Suc i)))"

definition splice1 :: "nat \<Rightarrow> 'a list \<Rightarrow> 'a list" where
  "splice1 i xs = take i xs @ drop (Suc i) xs"

definition update_context :: "ctx_ref \<Rightarrow> (ComponentContext \<Rightarrow> ComponentContext) \<Rightarrow> system \<Rightarrow> system" where
  "update_context r f s = s\<lparr>contexts := (contexts s)[r := f (contexts s ! r)]\<rparr>"

definition update_call :: "call_ref \<Rightarrow> (PendingCall \<Rightarrow> PendingCall) \<Rightarrow> system \<Rightarrow> system" where
  "update_call k f s = s\<lparr>calls := (calls s)[k := f (calls s ! k)]\<rparr>"

subsection \<open>ComponentContext: constructor and root handlers\<close>

definition new_ComponentContext :: "string \<Rightarrow> system \<Rightarrow> ctx_ref \<times> system" where
  "new_ComponentContext nm s =
     (let r = length (contexts s) in
      (r, s\<lparr>contexts := contexts s @ [\<lparr>name = nm, eventHandlers = [], apis = []\<rparr>],
            event := (event s)\<lparr>on_event := on_event (event s) @ [r],
                                on_api_call := on_api_call (event s) @ [r]\<rparr>\<rparr>))"

text \<open>
  An event listener is code of a component; the model records that it was invoked and
  with what, and lets it return normally.
\<close>

definition rootEventHandler :: "ctx_ref \<Rightarrow> EventFrame \<Rightarrow> system \<Rightarrow> system" where
  "rootEventHandler r frame s =
     (let listeners = filter (\<lambda>item. eh_component item = ef_component frame \<and>
                                      eh_event item = ef_event frame)
                             (eventHandlers (contexts s ! r))
      in s\<lparr>invoked := invoked s @ map (\<lambda>item. (r, eh_listener item, ef_value frame)) listeners\<rparr>)"

text \<open>
  \<open>rootApiHandler\<close> returns the exception that leaves it, if any.  The handler's promise,
  when there is one, is queued with the frame's id; its callbacks run when it settles.
\<close>

definition rootApiHandler :: "ctx_ref \<Rightarrow> ApiCallFrame \<Rightarrow> system \<Rightarrow> val option \<times> system" where
  "rootApiHandler r frame s =
     (if cf_component frame \<noteq> name (contexts s ! r) then (None, s)
      else case find (\<lambda>item. endpoint item = cf_endpoint frame) (apis (contexts s ! r)) of
        None \<Rightarrow> (None, s)
      | Some api \<Rightarrow>
          (case handler api \<lparr>ec_params = cf_params frame\<rparr> of
             Threw e \<Rightarrow> (Some e, s)
           | Returned p \<Rightarrow>
               (None, s\<lparr>handlerJobs := handlerJobs s @
                    [\<lparr>job_ctx = r, job_frame_id = cf_id frame, job_promise = p, job_done = False\<rparr>]\<rparr>)))"

text \<open>\<open>emit\<close> calls a snapshot of the listeners in order; an exception ends it.\<close>

definition emit_event :: "EventFrame \<Rightarrow> system \<Rightarrow> system" where
  "emit_event frame s = fold (\<lambda>r. rootEventHandler r frame) (on_event (event s)) s"

fun emit_api_call_loop :: "ctx_ref list \<Rightarrow> ApiCallFrame \<Rightarrow> system \<Rightarrow> val option \<times> system" where
  "emit_api_call_loop [] frame s = (None, s)"
| "emit_api_call_loop (r # rs) frame s =
     (case rootApiHandler r frame s of
        (Some e, s') \<Rightarrow> (Some e, s')
      | (None, s') \<Rightarrow> emit_api_call_loop rs frame s')"

definition emit_api_call :: "ApiCallFrame \<Rightarrow> system \<Rightarrow> val option \<times> system" where
  "emit_api_call frame s = emit_api_call_loop (on_api_call (event s)) frame s"

subsection \<open>ComponentContext: publish and subscribe\<close>

definition getListenerIndex :: "ctx_ref \<Rightarrow> string \<Rightarrow> string \<Rightarrow> listener_ref \<Rightarrow> system \<Rightarrow> nat option" where
  "getListenerIndex r component event' listener s =
     findIndex (\<lambda>item. eh_component item = component \<and> eh_event item = event' \<and>
                       eh_listener item = listener)
               (eventHandlers (contexts s ! r))"

definition addListener :: "ctx_ref \<Rightarrow> string \<Rightarrow> string \<Rightarrow> listener_ref \<Rightarrow> system \<Rightarrow> system" where
  "addListener r component event' listener s =
     (if getListenerIndex r component event' listener s \<noteq> None then s
      else update_context r (\<lambda>c. c\<lparr>eventHandlers := eventHandlers c @
             [\<lparr>eh_component = component, eh_event = event', eh_listener = listener\<rparr>]\<rparr>) s)"

definition removeListener :: "ctx_ref \<Rightarrow> string \<Rightarrow> string \<Rightarrow> listener_ref \<Rightarrow> system \<Rightarrow> system" where
  "removeListener r component event' listener s =
     (case getListenerIndex r component event' listener s of
        None \<Rightarrow> s
      | Some index \<Rightarrow> update_context r (\<lambda>c. c\<lparr>eventHandlers := splice1 index (eventHandlers c)\<rparr>) s)"

definition send :: "ctx_ref \<Rightarrow> string \<Rightarrow> val \<Rightarrow> system \<Rightarrow> system" where
  "send r event' value' s =
     emit_event \<lparr>ef_component = name (contexts s ! r), ef_event = event', ef_value = value'\<rparr> s"

subsection \<open>ComponentContext: endpoints\<close>

text \<open>The two methods throw; the result is the exception, if any, and the state left behind.\<close>

definition addEndpoint ::
  "ctx_ref \<Rightarrow> EndpointInfo \<Rightarrow> (EndpointContext \<Rightarrow> invocation) \<Rightarrow> system \<Rightarrow> val option \<times> system" where
  "addEndpoint r info handler' s =
     (case findIndex (\<lambda>item. endpoint item = info_name info) (apis (contexts s ! r)) of
        Some index \<Rightarrow> (Some (VError ''endpoint name is already used.''), s)
      | None \<Rightarrow> (None, update_context r (\<lambda>c. c\<lparr>apis := apis c @
                   [\<lparr>endpoint = info_name info, handler = handler'\<rparr>]\<rparr>) s))"

definition removeEndpoint :: "ctx_ref \<Rightarrow> string \<Rightarrow> system \<Rightarrow> val option \<times> system" where
  "removeEndpoint r name' s =
     (case findIndex (\<lambda>item. endpoint item = name') (apis (contexts s ! r)) of
        None \<Rightarrow> (Some (VError ''endpoint is not found.''), s)
      | Some index \<Rightarrow> (None, update_context r (\<lambda>c. c\<lparr>apis := splice1 index (apis c)\<rparr>) s))"

subsection \<open>ComponentContext: call\<close>

definition settle :: "call_ref \<Rightarrow> settlement \<Rightarrow> system \<Rightarrow> system" where
  "settle k x s = update_call k (\<lambda>c. c\<lparr>pc_settled := pc_settled c @ [x]\<rparr>) s"

definition clearTimeout :: "call_ref \<Rightarrow> system \<Rightarrow> system" where
  "clearTimeout k s =
     update_call k (\<lambda>c. c\<lparr>pc_timeoutHandle :=
        (case pc_timeoutHandle c of Armed d \<Rightarrow> Cleared | Cleared \<Rightarrow> Cleared | Fired \<Rightarrow> Fired)\<rparr>) s"

text \<open>
  The function \<open>listener\<close> inside \<open>call\<close>, closed over the call's id, promise and
  timer.  \<open>timeoutHandle\<close> is set before anything is emitted, so it is never \<open>null\<close> when
  the listener runs.
\<close>

definition call_listener :: "call_ref \<Rightarrow> ApiResultFrame \<Rightarrow> system \<Rightarrow> system" where
  "call_listener k resultFrame s =
     (if rf_id resultFrame \<noteq> pc_id (calls s ! k) then s
      else settle k (Resolve (rf_value resultFrame)) (clearTimeout k s))"

text \<open>
  \<open>once\<close> registers a wrapper that, when the emitter invokes it, first removes itself
  and then calls the wrapped listener, whatever the listener then does with the frame.
\<close>

definition onceWrapper :: "call_ref \<Rightarrow> ApiResultFrame \<Rightarrow> system \<Rightarrow> system" where
  "onceWrapper k resultFrame s =
     call_listener k resultFrame
       (s\<lparr>event := (event s)\<lparr>on_api_result := emitter_removeListener k (on_api_result (event s))\<rparr>\<rparr>)"

definition emit_api_result :: "ApiResultFrame \<Rightarrow> system \<Rightarrow> system" where
  "emit_api_result resultFrame s =
     fold (\<lambda>k. onceWrapper k resultFrame) (on_api_result (event s))
          (s\<lparr>results := results s @ [resultFrame]\<rparr>)"

text \<open>The callback given to \<open>setTimeout\<close> inside \<open>call\<close>.\<close>

definition timeout_callback :: "call_ref \<Rightarrow> system \<Rightarrow> system" where
  "timeout_callback k s =
     settle k (Reject (VError ''timeout''))
       (s\<lparr>event := (event s)\<lparr>on_api_result := emitter_removeListener k (on_api_result (event s))\<rparr>\<rparr>)"

text \<open>
  \<open>call\<close> returns its promise, here the reference of the new pending call.  \<open>id'\<close> is
  what \<open>uuid()\<close> returned.  The body is the promise's executor: an exception that leaves
  it (one thrown through \<open>emit\<close>) rejects the promise.  Of its context \<open>call\<close> uses the
  engine only, so the context is no argument here.
\<close>

definition call ::
  "string \<Rightarrow> string \<Rightarrow> params option \<Rightarrow> nat option \<Rightarrow> string \<Rightarrow> system \<Rightarrow> call_ref \<times> system" where
  "call component endpoint' params timeout id' s =
     (let params' = (case params of None \<Rightarrow> [] | Some p \<Rightarrow> p);
          timeout' = (case timeout of None \<Rightarrow> 1000 | Some t \<Rightarrow> t);
          k = length (calls s);
          s1 = s\<lparr>calls := calls s @
                   [\<lparr>pc_id = id', pc_settled = [], pc_timeoutHandle = Armed (clock s + timeout')\<rparr>],
                 event := (event s)\<lparr>on_api_result := on_api_result (event s) @ [k]\<rparr>\<rparr>;
          callFrame = \<lparr>cf_component = component, cf_id = id', cf_endpoint = endpoint',
                       cf_params = params'\<rparr>
      in case emit_api_call callFrame s1 of
           (None, s2) \<Rightarrow> (k, s2)
         | (Some e, s2) \<Rightarrow> (k, settle k (Reject e) s2))"

definition dispose :: "ctx_ref \<Rightarrow> system \<Rightarrow> system" where
  "dispose r s =
     s\<lparr>event := (event s)\<lparr>on_event := emitter_removeListener r (on_event (event s)),
                          on_api_call := emitter_removeListener r (on_api_call (event s))\<rparr>\<rparr>"

subsection \<open>ComponentEngine\<close>

definition registerEntry :: "Component \<Rightarrow> system \<Rightarrow> system" where
  "registerEntry component s =
     (case new_ComponentContext (comp_name component) s of
        (ctx, s') \<Rightarrow>
          s'\<lparr>entries := assign (comp_name component)
                \<lparr>entry_ctx = ctx, entry_start = (\<lambda>_. comp_start component ctx)\<rparr> (entries s')\<rparr>)"

definition use :: "Component \<Rightarrow> system \<Rightarrow> system" where
  "use component s = registerEntry component s"

fun start_loop :: "(string \<times> ComponentEntry) list \<Rightarrow> system \<Rightarrow> val option \<times> system" where
  "start_loop [] s = (None, s)"
| "start_loop ((name', entry) # rest) s =
     (case entry_start entry () of
        Threw e \<Rightarrow> (Some e, s)
      | Returned p \<Rightarrow>
          start_loop rest (s\<lparr>startJobs := startJobs s @
             [\<lparr>sj_name = name', sj_ctx = entry_ctx entry, sj_promise = p, sj_done = False\<rparr>]\<rparr>))"

definition start :: "system \<Rightarrow> val option \<times> system" where
  "start s = start_loop (entries s) s"

section \<open>The event loop\<close>

text \<open>
  Between two turns of the event loop one of these happens: a promise settles and its
  callbacks run, or a timer that is due fires.  A promise settles at most once; one that
  stays pending never does.
\<close>

definition handler_settles :: "nat \<Rightarrow> system \<Rightarrow> system" where
  "handler_settles j s =
     (if j < length (handlerJobs s) \<and> \<not> job_done (handlerJobs s ! j) then
        (let job = handlerJobs s ! j;
             s' = s\<lparr>handlerJobs := (handlerJobs s)[j := job\<lparr>job_done := True\<rparr>]\<rparr>
         in case job_promise job of
              Resolves result \<Rightarrow>
                emit_api_result \<lparr>rf_component = name (contexts s ! job_ctx job),
                                 rf_id = job_frame_id job, rf_value = result\<rparr> s'
            | Rejects err \<Rightarrow> s'\<lparr>console := console s' @ [err]\<rparr>
            | Never \<Rightarrow> s)
      else s)"

definition start_settles :: "nat \<Rightarrow> system \<Rightarrow> system" where
  "start_settles j s =
     (if j < length (startJobs s) \<and> \<not> sj_done (startJobs s ! j) then
        (let job = startJobs s ! j;
             s' = s\<lparr>startJobs := (startJobs s)[j := job\<lparr>sj_done := True\<rparr>]\<rparr>
         in case sj_promise job of
              Resolves result \<Rightarrow> s'
            | Rejects err \<Rightarrow> s'\<lparr>console := console s' @ [err]\<rparr>
            | Never \<Rightarrow> s)
      else s)"

definition timer_fires :: "call_ref \<Rightarrow> system \<Rightarrow> system" where
  "timer_fires k s =
     (if k < length (calls s) then
        (case pc_timeoutHandle (calls s ! k) of
           Armed due \<Rightarrow>
             (if due \<le> clock s
              then timeout_callback k (update_call k (\<lambda>c. c\<lparr>pc_timeoutHandle := Fired\<rparr>) s)
              else s)
         | Cleared \<Rightarrow> s
         | Fired \<Rightarrow> s)
      else s)"

text \<open>
  What the components and the platform can do, one step at a time.  A method of a
  context needs the context to exist.  The code of components (entry points, handlers,
  listeners) acts on the system only through these steps, so a list of them is a history
  of the system; a step starts when the one before it is complete (a component does not
  call into the engine from the middle of a dispatch).  \<open>Elapse\<close> lets time pass.
\<close>

datatype action =
    Use Component
  | Start
  | AddListener ctx_ref string string listener_ref
  | RemoveListener ctx_ref string string listener_ref
  | Send ctx_ref string val
  | AddEndpoint ctx_ref EndpointInfo "EndpointContext \<Rightarrow> invocation"
  | RemoveEndpoint ctx_ref string
  | Call ctx_ref string string "params option" "nat option" string
  | Dispose ctx_ref
  | HandlerSettles nat
  | StartSettles nat
  | TimerFires call_ref
  | Elapse nat

fun step :: "action \<Rightarrow> system \<Rightarrow> system" where
  "step (Use component) s = use component s"
| "step Start s = snd (start s)"
| "step (AddListener r c e l) s = (if r < length (contexts s) then addListener r c e l s else s)"
| "step (RemoveListener r c e l) s = (if r < length (contexts s) then removeListener r c e l s else s)"
| "step (Send r e v) s = (if r < length (contexts s) then send r e v s else s)"
| "step (AddEndpoint r info h) s = (if r < length (contexts s) then snd (addEndpoint r info h s) else s)"
| "step (RemoveEndpoint r n) s = (if r < length (contexts s) then snd (removeEndpoint r n s) else s)"
| "step (Call r c e p t i) s = (if r < length (contexts s) then snd (call c e p t i s) else s)"
| "step (Dispose r) s = (if r < length (contexts s) then dispose r s else s)"
| "step (HandlerSettles j) s = handler_settles j s"
| "step (StartSettles j) s = start_settles j s"
| "step (TimerFires k) s = timer_fires k s"
| "step (Elapse d) s = s\<lparr>clock := clock s + d\<rparr>"

definition run :: "action list \<Rightarrow> system \<Rightarrow> system" where
  "run as s = fold step as s"

subsection \<open>Auxiliary notions for the proofs\<close>

definition deliveries :: "ctx_ref \<Rightarrow> EventFrame \<Rightarrow> system \<Rightarrow> (ctx_ref \<times> listener_ref \<times> val) list" where
  "deliveries r frame s =
     map (\<lambda>item. (r, eh_listener item, ef_value frame))
       (filter (\<lambda>item. eh_component item = ef_component frame \<and> eh_event item = ef_event frame)
          (eventHandlers (contexts s ! r)))"

definition deliver :: "ApiResultFrame \<Rightarrow> PendingCall \<Rightarrow> PendingCall" where
  "deliver frame c =
     (if rf_id frame \<noteq> pc_id c then c
      else c\<lparr>pc_timeoutHandle :=
               (case pc_timeoutHandle c of Armed d \<Rightarrow> Cleared | Cleared \<Rightarrow> Cleared | Fired \<Rightarrow> Fired),
             pc_settled := pc_settled c @ [Resolve (rf_value frame)]\<rparr>)"

definition waiting_ok :: "system \<Rightarrow> bool" where
  "waiting_ok s \<longleftrightarrow>
     distinct (on_api_result (event s)) \<and>
     (\<forall>k\<in>set (on_api_result (event s)).
        k < length (calls s) \<and> (\<exists>d. pc_timeoutHandle (calls s ! k) = Armed d))"

definition emitter_ok :: "system \<Rightarrow> bool" where
  "emitter_ok s \<longleftrightarrow>
     distinct (on_event (event s)) \<and> distinct (on_api_call (event s)) \<and>
     (\<forall>r\<in>set (on_event (event s)). r < length (contexts s)) \<and>
     (\<forall>r\<in>set (on_api_call (event s)). r < length (contexts s))"

definition listeners_ok :: "system \<Rightarrow> bool" where
  "listeners_ok s \<longleftrightarrow> (\<forall>c\<in>set (contexts s). distinct (eventHandlers c))"

definition entries_ok :: "system \<Rightarrow> bool" where
  "entries_ok s \<longleftrightarrow>
     distinct (map fst (entries s)) \<and>
     (\<forall>e\<in>set (entries s). entry_ctx (snd e) < length (contexts s))"

subsection \<open>The example program\<close>

text \<open>
  The two components of the source's example: \<open>users\<close> publishes the endpoint
  \<open>getUser\<close>, \<open>notes\<close> calls it.  What their entry points do to the system is a
  history of steps; \<open>booted\<close> is the system once both are registered and started and
  \<open>users\<close> (context 1) has published its endpoint.  The id that \<open>uuid()\<close> gives the user
  object is a fixed one here.
\<close>

definition user :: val where
  "user = VObj [(''id'', VStr ''3b241101-e2bb-4255-8caf-4136c566a962''), (''name'', VStr ''abc''),
                (''description'', VStr ''hello'')]"

definition getUser :: "EndpointContext \<Rightarrow> invocation" where
  "getUser ctx = Returned (Resolves user)"

definition NotesComponent :: Component where
  "NotesComponent = \<lparr>comp_name = ''notes'', comp_start = (\<lambda>ctx. Returned (Resolves VUndefined))\<rparr>"

definition UsersComponent :: Component where
  "UsersComponent = \<lparr>comp_name = ''users'', comp_start = (\<lambda>ctx. Returned (Resolves VUndefined))\<rparr>"

definition booted :: system where
  "booted = run [Use NotesComponent, Use UsersComponent, Start,
                 AddEndpoint 1 \<lparr>info_name = ''getUser'', info_params = []\<rparr> getUser]
              new_ComponentEngine"








text \<open>
  A handler that is not an \<open>async\<close> function and throws when it is called.
\<close>

definition explode :: "EndpointContext \<Rightarrow> invocation" where
  "explode ctx = Threw (VError ''boom'')"

section \<open>Auxiliary facts\<close>

lemma findIndex_None_iff: "findIndex P xs = None \<longleftrightarrow> (\<forall>x\<in>set xs. \<not> P x)"
  by (induction xs) (auto split: option.splits)

lemma findIndex_Some_less: "findIndex P xs = Some i \<Longrightarrow> i < length xs \<and> P (xs ! i)"
  by (induction xs arbitrary: i) (auto split: option.splits if_splits)


lemma emitter_removeListener_distinct:
  "distinct xs \<Longrightarrow> emitter_removeListener x xs = removeAll x xs"
  by (simp add: emitter_removeListener_def distinct_remove1_removeAll removeAll_filter_not_eq rev_filter)

lemma deliveries_invoked [simp]: "deliveries r frame (s\<lparr>invoked := xs\<rparr>) = deliveries r frame s"
  by (simp add: deliveries_def)

lemma rootEventHandler_eq: "rootEventHandler r frame s = s\<lparr>invoked := invoked s @ deliveries r frame s\<rparr>"
  by (simp add: rootEventHandler_def deliveries_def)

lemma fold_rootEventHandler:
  "fold (\<lambda>r. rootEventHandler r frame) rs s =
     s\<lparr>invoked := invoked s @ concat (map (\<lambda>r. deliveries r frame s) rs)\<rparr>"
  by (induction rs arbitrary: s) (simp_all add: rootEventHandler_eq)

lemma emit_event_eq:
  "emit_event frame s =
     s\<lparr>invoked := invoked s @ concat (map (\<lambda>r. deliveries r frame s) (on_event (event s)))\<rparr>"
  by (simp add: emit_event_def fold_rootEventHandler)

lemma rootApiHandler_shape:
  "\<exists>js. snd (rootApiHandler r frame s) = s\<lparr>handlerJobs := handlerJobs s @ js\<rparr> \<and>
        (\<forall>j\<in>set js. job_frame_id j = cf_id frame)"
  by (auto simp: rootApiHandler_def split: option.splits invocation.splits intro: exI[of _ "[]"])

lemma emit_api_call_loop_shape:
  "\<exists>js. snd (emit_api_call_loop rs frame s) = s\<lparr>handlerJobs := handlerJobs s @ js\<rparr> \<and>
        (\<forall>j\<in>set js. job_frame_id j = cf_id frame)"
proof (induction rs arbitrary: s)
  case Nil
  show ?case by (auto intro: exI[of _ "[]"])
next
  case (Cons r rs)
  obtain js where js: "snd (rootApiHandler r frame s) = s\<lparr>handlerJobs := handlerJobs s @ js\<rparr>"
      "\<forall>j\<in>set js. job_frame_id j = cf_id frame"
    using rootApiHandler_shape by blast
  show ?case
  proof (cases "fst (rootApiHandler r frame s)")
    case (Some e)
    then show ?thesis using js by (auto simp: split_beta split: prod.splits option.splits)
  next
    case None
    obtain js' where js': "snd (emit_api_call_loop rs frame (s\<lparr>handlerJobs := handlerJobs s @ js\<rparr>)) =
        s\<lparr>handlerJobs := handlerJobs s @ js @ js'\<rparr>" "\<forall>j\<in>set js'. job_frame_id j = cf_id frame"
      using Cons.IH[of "s\<lparr>handlerJobs := handlerJobs s @ js\<rparr>"] by auto
    show ?thesis
      using None js js' by (auto simp: split_beta split: prod.splits option.splits intro!: exI[of _ "js @ js'"])
  qed
qed

lemma start_loop_shape:
  "\<exists>js. snd (start_loop es s) = s\<lparr>startJobs := startJobs s @ js\<rparr>"
proof (induction es arbitrary: s)
  case Nil
  show ?case by (auto intro: exI[of _ "[]"])
next
  case (Cons a es)
  obtain n e where a: "a = (n, e)" by (cases a)
  show ?case
  proof (cases "entry_start e ()")
    case (Threw x)
    then show ?thesis using a by (auto intro: exI[of _ "[]"])
  next
    case (Returned p)
    let ?j = "\<lparr>sj_name = n, sj_ctx = entry_ctx e, sj_promise = p, sj_done = False\<rparr>"
    obtain js where "snd (start_loop es (s\<lparr>startJobs := startJobs s @ [?j]\<rparr>)) =
       s\<lparr>startJobs := startJobs s @ [?j] @ js\<rparr>"
      using Cons.IH[of "s\<lparr>startJobs := startJobs s @ [?j]\<rparr>"] by auto
    then show ?thesis using a Returned by (auto intro!: exI[of _ "?j # js"])
  qed
qed

lemma onceWrapper_eq:
  "onceWrapper k frame s =
     s\<lparr>event := (event s)\<lparr>on_api_result := emitter_removeListener k (on_api_result (event s))\<rparr>,
       calls := (calls s)[k := deliver frame (calls s ! k)]\<rparr>"
  by (cases "k < length (calls s)")
     (simp_all add: onceWrapper_def call_listener_def settle_def clearTimeout_def update_call_def
        deliver_def list_update_beyond)

lemma fold_onceWrapper:
  "fold (\<lambda>k. onceWrapper k frame) ks s =
     s\<lparr>event := (event s)\<lparr>on_api_result := fold emitter_removeListener ks (on_api_result (event s))\<rparr>,
       calls := fold (\<lambda>k cs. cs[k := deliver frame (cs ! k)]) ks (calls s)\<rparr>"
  by (induction ks arbitrary: s) (simp_all add: onceWrapper_eq)

lemma fold_emitter_removeListener:
  "distinct zs \<Longrightarrow> fold emitter_removeListener ks zs = filter (\<lambda>z. z \<notin> set ks) zs"
proof (induction ks arbitrary: zs)
  case Nil
  show ?case by simp
next
  case (Cons k ks)
  have "fold emitter_removeListener ks (removeAll k zs) = filter (\<lambda>z. z \<notin> set ks) (removeAll k zs)"
    using Cons.prems by (intro Cons.IH) (simp add: distinct_removeAll)
  then show ?case
    using Cons.prems
    by (simp add: emitter_removeListener_distinct removeAll_filter_not_eq eq_commute [of k] cong: filter_cong)
qed

lemma length_fold_update [simp]:
  "length (fold (\<lambda>k cs. cs[k := g (cs ! k)]) ks cs) = length cs"
  by (induction ks arbitrary: cs) simp_all

lemma nth_fold_update:
  "distinct ks \<Longrightarrow>
   fold (\<lambda>k cs. cs[k := g (cs ! k)]) ks cs ! i =
     (if i \<in> set ks \<and> i < length cs then g (cs ! i) else cs ! i)"
proof (induction ks arbitrary: cs)
  case Nil
  show ?case by simp
next
  case (Cons k ks)
  show ?case
  proof (cases "i = k")
    case True
    then show ?thesis
      using Cons by (cases "k < length cs") (simp_all add: list_update_beyond)
  next
    case False
    then show ?thesis
      using Cons by simp
  qed
qed

lemma emit_api_result_eq:
  assumes "distinct (on_api_result (event s))"
  shows "emit_api_result frame s =
     s\<lparr>results := results s @ [frame],
       event := (event s)\<lparr>on_api_result := []\<rparr>,
       calls := fold (\<lambda>k cs. cs[k := deliver frame (cs ! k)]) (on_api_result (event s)) (calls s)\<rparr>"
  using assms by (simp add: emit_api_result_def fold_onceWrapper fold_emitter_removeListener)

lemma call_shape:
  "\<exists>js ss. call c e p t i s =
     (length (calls s),
      s\<lparr>calls := calls s @
           [\<lparr>pc_id = i, pc_settled = ss,
             pc_timeoutHandle = Armed (clock s + (case t of None \<Rightarrow> 1000 | Some t' \<Rightarrow> t'))\<rparr>],
        event := (event s)\<lparr>on_api_result := on_api_result (event s) @ [length (calls s)]\<rparr>,
        handlerJobs := handlerJobs s @ js\<rparr>) \<and>
     (\<forall>j\<in>set js. job_frame_id j = i) \<and> (ss = [] \<or> (\<exists>x. ss = [Reject x]))"
proof -
  let ?s1 = "s\<lparr>calls := calls s @
           [\<lparr>pc_id = i, pc_settled = [],
             pc_timeoutHandle = Armed (clock s + (case t of None \<Rightarrow> 1000 | Some t' \<Rightarrow> t'))\<rparr>],
        event := (event s)\<lparr>on_api_result := on_api_result (event s) @ [length (calls s)]\<rparr>\<rparr>"
  let ?f = "\<lparr>cf_component = c, cf_id = i, cf_endpoint = e,
             cf_params = (case p of None \<Rightarrow> [] | Some p' \<Rightarrow> p')\<rparr>"
  obtain js where js: "snd (emit_api_call ?f ?s1) = ?s1\<lparr>handlerJobs := handlerJobs ?s1 @ js\<rparr>"
     "\<forall>j\<in>set js. job_frame_id j = i"
    using emit_api_call_loop_shape[of "on_api_call (event ?s1)" ?f ?s1]
    by (auto simp: emit_api_call_def)
  show ?thesis
  proof (cases "fst (emit_api_call ?f ?s1)")
    case None
    then have "emit_api_call ?f ?s1 = (None, ?s1\<lparr>handlerJobs := handlerJobs ?s1 @ js\<rparr>)"
      using js(1) by (metis prod.collapse)
    then show ?thesis
      using js(2)
      by (intro exI[of _ js] exI[of _ "[]"]) (simp add: call_def Let_def)
  next
    case (Some x)
    then have "emit_api_call ?f ?s1 = (Some x, ?s1\<lparr>handlerJobs := handlerJobs ?s1 @ js\<rparr>)"
      using js(1) by (metis prod.collapse)
    then show ?thesis
      using js(2)
      by (intro exI[of _ js] exI[of _ "[Reject x]"]) (simp add: call_def Let_def settle_def update_call_def)
  qed
qed

lemma waiting_ok_step: "waiting_ok s \<Longrightarrow> waiting_ok (step a s)"
proof (cases a)
  case (Call r c e p t i)
  assume w: "waiting_ok s"
  obtain js ss where "call c e p t i s =
     (length (calls s),
      s\<lparr>calls := calls s @
           [\<lparr>pc_id = i, pc_settled = ss,
             pc_timeoutHandle = Armed (clock s + (case t of None \<Rightarrow> 1000 | Some t' \<Rightarrow> t'))\<rparr>],
        event := (event s)\<lparr>on_api_result := on_api_result (event s) @ [length (calls s)]\<rparr>,
        handlerJobs := handlerJobs s @ js\<rparr>)"
    using call_shape by blast
  then show ?thesis
    using w Call by (auto simp: waiting_ok_def nth_append)
next
  case (HandlerSettles j)
  assume w: "waiting_ok s"
  then show ?thesis
    using HandlerSettles
    by (auto simp: waiting_ok_def handler_settles_def Let_def emit_api_result_eq split: promise.splits)
next
  case (TimerFires k)
  assume w: "waiting_ok s"
  then show ?thesis
    using TimerFires
    by (auto simp: waiting_ok_def timer_fires_def timeout_callback_def settle_def update_call_def
          emitter_removeListener_distinct nth_list_update distinct_removeAll split: timer.splits)
next
  case (Use c)
  assume "waiting_ok s"
  then show ?thesis
    using Use by (auto simp: waiting_ok_def use_def registerEntry_def new_ComponentContext_def Let_def)
next
  case Start
  assume w: "waiting_ok s"
  obtain js where "snd (start s) = s\<lparr>startJobs := startJobs s @ js\<rparr>"
    using start_loop_shape[of "entries s" s] by (auto simp: start_def)
  then show ?thesis using w Start by (simp add: waiting_ok_def)
next
  case (Send r e v)
  assume "waiting_ok s"
  then show ?thesis using Send by (simp add: waiting_ok_def send_def emit_event_eq)
qed (auto simp: waiting_ok_def addListener_def removeListener_def addEndpoint_def removeEndpoint_def
       dispose_def start_settles_def update_context_def Let_def split: option.splits promise.splits)

lemma call_frame:
  "contexts (snd (call c e p t i s)) = contexts s"
  "entries (snd (call c e p t i s)) = entries s"
  "on_event (event (snd (call c e p t i s))) = on_event (event s)"
  "on_api_call (event (snd (call c e p t i s))) = on_api_call (event s)"
  "clock (snd (call c e p t i s)) = clock s"
  "results (snd (call c e p t i s)) = results s"
  using call_shape[of c e p t i s] by auto

lemma start_frame:
  "contexts (snd (start s)) = contexts s"
  "entries (snd (start s)) = entries s"
  "event (snd (start s)) = event s"
  "calls (snd (start s)) = calls s"
  "handlerJobs (snd (start s)) = handlerJobs s"
  "clock (snd (start s)) = clock s"
  "results (snd (start s)) = results s"
  using start_loop_shape[of "entries s" s] by (auto simp: start_def)

lemma emit_api_result_frame:
  "contexts (emit_api_result f s) = contexts s"
  "entries (emit_api_result f s) = entries s"
  "on_event (event (emit_api_result f s)) = on_event (event s)"
  "on_api_call (event (emit_api_result f s)) = on_api_call (event s)"
  "clock (emit_api_result f s) = clock s"
  "handlerJobs (emit_api_result f s) = handlerJobs s"
  "length (calls (emit_api_result f s)) = length (calls s)"
  "results (emit_api_result f s) = results s @ [f]"
  by (simp_all add: emit_api_result_def fold_onceWrapper)

lemma handler_settles_frame:
  "contexts (handler_settles j s) = contexts s"
  "entries (handler_settles j s) = entries s"
  "on_event (event (handler_settles j s)) = on_event (event s)"
  "on_api_call (event (handler_settles j s)) = on_api_call (event s)"
  "clock (handler_settles j s) = clock s"
  "length (calls (handler_settles j s)) = length (calls s)"
  by (simp_all add: handler_settles_def Let_def emit_api_result_frame split: promise.splits)

lemma timer_fires_frame:
  "contexts (timer_fires k s) = contexts s"
  "entries (timer_fires k s) = entries s"
  "on_event (event (timer_fires k s)) = on_event (event s)"
  "on_api_call (event (timer_fires k s)) = on_api_call (event s)"
  "clock (timer_fires k s) = clock s"
  "handlerJobs (timer_fires k s) = handlerJobs s"
  "length (calls (timer_fires k s)) = length (calls s)"
  "results (timer_fires k s) = results s"
  by (simp_all add: timer_fires_def timeout_callback_def settle_def update_call_def split: timer.splits)

lemma emitter_ok_step: "emitter_ok s \<Longrightarrow> emitter_ok (step a s)"
proof (cases a)
  case (Use c)
  assume "emitter_ok s"
  then show ?thesis
    using Use by (auto simp: emitter_ok_def use_def registerEntry_def new_ComponentContext_def Let_def)
next
  case (Dispose r)
  assume "emitter_ok s"
  then show ?thesis
    using Dispose by (auto simp: emitter_ok_def dispose_def emitter_removeListener_distinct distinct_removeAll)
qed (simp_all add: emitter_ok_def call_frame start_frame handler_settles_frame timer_fires_frame
       addListener_def removeListener_def addEndpoint_def removeEndpoint_def send_def emit_event_eq
       start_settles_def update_context_def Let_def split: option.splits promise.splits)

lemma distinct_splice1: "distinct xs \<Longrightarrow> distinct (splice1 i xs)"
  by (simp add: splice1_def set_take_disj_set_drop_if_distinct)

subsection \<open>Invariants of every history\<close>

lemma listeners_ok_step: "listeners_ok s \<Longrightarrow> listeners_ok (step a s)"
proof (cases a)
  case (AddListener r c e l)
  assume ok: "listeners_ok s"
  let ?x = "\<lparr>eh_component = c, eh_event = e, eh_listener = l\<rparr>"
  have "(\<lambda>item. eh_component item = c \<and> eh_event item = e \<and> eh_listener item = l) = (\<lambda>item. item = ?x)"
    by (auto simp: fun_eq_iff)
  then have "getListenerIndex r c e l s = None \<Longrightarrow> ?x \<notin> set (eventHandlers (contexts s ! r))"
    by (auto simp: getListenerIndex_def findIndex_None_iff)
  then show ?thesis
    using ok AddListener
    by (auto simp: listeners_ok_def addListener_def update_context_def dest!: set_update_subset_insert[THEN subsetD])
next
  case (RemoveListener r c e l)
  assume ok: "listeners_ok s"
  then show ?thesis
    using RemoveListener
    by (auto simp: listeners_ok_def removeListener_def update_context_def distinct_splice1
          split: option.splits dest!: set_update_subset_insert[THEN subsetD])
next
  case (AddEndpoint r i h)
  assume ok: "listeners_ok s"
  then show ?thesis
    using AddEndpoint
    by (auto simp: listeners_ok_def addEndpoint_def update_context_def
          split: option.splits dest!: set_update_subset_insert[THEN subsetD])
next
  case (RemoveEndpoint r n)
  assume ok: "listeners_ok s"
  then show ?thesis
    using RemoveEndpoint
    by (auto simp: listeners_ok_def removeEndpoint_def update_context_def
          split: option.splits dest!: set_update_subset_insert[THEN subsetD])
next
  case (Use c)
  assume "listeners_ok s"
  then show ?thesis
    using Use by (auto simp: listeners_ok_def use_def registerEntry_def new_ComponentContext_def Let_def)
qed (simp_all add: listeners_ok_def call_frame start_frame handler_settles_frame timer_fires_frame
       send_def emit_event_eq dispose_def start_settles_def Let_def split: promise.splits)

lemma assign_keys: "fst ` set (assign k v ps) = insert k (fst ` set ps)"
  by (induction k v ps rule: assign.induct) auto

lemma assign_distinct: "distinct (map fst ps) \<Longrightarrow> distinct (map fst (assign k v ps))"
  by (induction k v ps rule: assign.induct) (auto simp: assign_keys)

lemma assign_subset: "set (assign k v ps) \<subseteq> insert (k, v) (set ps)"
  by (induction k v ps rule: assign.induct) auto

lemma entries_ok_step: "entries_ok s \<Longrightarrow> entries_ok (step a s)"
proof (cases a)
  case (Use c)
  assume "entries_ok s"
  then show ?thesis
    using Use assign_subset[of "comp_name c" _ "entries s"]
    by (fastforce simp: entries_ok_def use_def registerEntry_def new_ComponentContext_def Let_def
          assign_distinct)
qed (simp_all add: entries_ok_def call_frame start_frame handler_settles_frame timer_fires_frame
       addListener_def removeListener_def addEndpoint_def removeEndpoint_def send_def emit_event_eq
       dispose_def start_settles_def update_context_def Let_def split: option.splits promise.splits)

lemma run_Nil [simp]: "run [] s = s"
  by (simp add: run_def)

lemma run_Cons [simp]: "run (a # as) s = run as (step a s)"
  by (simp add: run_def)

lemma run_append [simp]: "run (as @ bs) s = run bs (run as s)"
  by (simp add: run_def)

lemma waiting_ok_run: "waiting_ok s \<Longrightarrow> waiting_ok (run as s)"
  by (induction as arbitrary: s) (simp_all add: waiting_ok_step)

lemma emitter_ok_run: "emitter_ok s \<Longrightarrow> emitter_ok (run as s)"
  by (induction as arbitrary: s) (simp_all add: emitter_ok_step)

lemma listeners_ok_run: "listeners_ok s \<Longrightarrow> listeners_ok (run as s)"
  by (induction as arbitrary: s) (simp_all add: listeners_ok_step)

lemma entries_ok_run: "entries_ok s \<Longrightarrow> entries_ok (run as s)"
  by (induction as arbitrary: s) (simp_all add: entries_ok_step)

lemma new_ComponentEngine_ok:
  "waiting_ok new_ComponentEngine" "emitter_ok new_ComponentEngine"
  "listeners_ok new_ComponentEngine" "entries_ok new_ComponentEngine"
  by (simp_all add: waiting_ok_def emitter_ok_def listeners_ok_def entries_ok_def new_ComponentEngine_def)

lemma reachable_ok:
  "waiting_ok (run as new_ComponentEngine)" "emitter_ok (run as new_ComponentEngine)"
  "listeners_ok (run as new_ComponentEngine)" "entries_ok (run as new_ComponentEngine)"
  by (rule waiting_ok_run emitter_ok_run listeners_ok_run entries_ok_run, rule new_ComponentEngine_ok)+

section \<open>Endpoint registration\<close>

text \<open>
  Claim C6.  On a context that already has an endpoint of that name, \<open>addEndpoint\<close>
  throws the error "endpoint name is already used." and leaves the whole system as it
  was: the step changes nothing, and the context's \<open>rootApiHandler\<close> answers every call
  frame as before, so the handler registered first keeps serving and the second one is
  never invoked.
\<close>

theorem addEndpoint_duplicate_rejected:
  assumes "\<exists>item\<in>set (apis (contexts s ! r)). endpoint item = info_name info"
  shows "addEndpoint r info h s = (Some (VError ''endpoint name is already used.''), s) \<and>
         step (AddEndpoint r info h) s = s \<and>
         rootApiHandler r frame (snd (addEndpoint r info h s)) = rootApiHandler r frame s"
proof -
  from assms have "findIndex (\<lambda>item. endpoint item = info_name info) (apis (contexts s ! r)) \<noteq> None"
    by (simp add: findIndex_None_iff)
  then have "addEndpoint r info h s = (Some (VError ''endpoint name is already used.''), s)"
    by (auto simp: addEndpoint_def split: option.splits)
  then show ?thesis by simp
qed

theorem addEndpoint_duplicate_rejected_witness:
  "(\<exists>item\<in>set (apis (contexts booted ! 1)). endpoint item = ''getUser'') \<and>
   addEndpoint 1 \<lparr>info_name = ''getUser'', info_params = []\<rparr> (\<lambda>ctx. Returned (Resolves VUndefined)) booted =
     (Some (VError ''endpoint name is already used.''), booted)"
proof -
  have h: "\<exists>item\<in>set (apis (contexts booted ! 1)).
             endpoint item = info_name \<lparr>info_name = ''getUser'', info_params = []\<rparr>"
    by code_simp
  show ?thesis
    using h addEndpoint_duplicate_rejected [OF h] by simp
qed

section \<open>Disposal\<close>

lemma length_removeAll_distinct:
  "distinct xs \<Longrightarrow> length (removeAll x xs) = length xs - (if x \<in> set xs then 1 else 0)"
  by (simp add: distinct_remove1_removeAll [symmetric] length_remove1)

text \<open>
  Claim C9.  In every system the engine can reach, \<open>dispose\<close> on a context takes that
  context's \<open>rootEventHandler\<close> off \<open>'event'\<close> and its \<open>rootApiHandler\<close> off
  \<open>'api-call'\<close>, one listener each when it was subscribed, and nothing else changes:
  the other listeners stay, the \<open>'api-result'\<close> listeners stay, and the context objects
  stay as they were, so the disposed context keeps its endpoint list.
\<close>

theorem dispose_removes_only_root_handlers:
  "let s = run pre new_ComponentEngine; s' = dispose r s in
     s' = s\<lparr>event := (event s)\<lparr>on_event := removeAll r (on_event (event s)),
                               on_api_call := removeAll r (on_api_call (event s))\<rparr>\<rparr> \<and>
     length (on_event (event s')) =
       length (on_event (event s)) - (if r \<in> set (on_event (event s)) then 1 else 0) \<and>
     length (on_api_call (event s')) =
       length (on_api_call (event s)) - (if r \<in> set (on_api_call (event s)) then 1 else 0) \<and>
     on_api_result (event s') = on_api_result (event s) \<and>
     contexts s' = contexts s \<and>
     apis (contexts s' ! r) = apis (contexts s ! r)"
proof -
  have ok: "emitter_ok (run pre new_ComponentEngine)"
    by (rule reachable_ok)
  then have d: "distinct (on_event (event (run pre new_ComponentEngine)))"
      "distinct (on_api_call (event (run pre new_ComponentEngine)))"
    by (simp_all add: emitter_ok_def)
  show ?thesis
    using d by (simp add: Let_def dispose_def emitter_removeListener_distinct length_removeAll_distinct)
qed

theorem dispose_removes_only_root_handlers_witness:
  "on_event (event (dispose 1 booted)) = [0] \<and> on_api_call (event (dispose 1 booted)) = [0] \<and>
   map endpoint (apis (contexts (dispose 1 booted) ! 1)) = [''getUser'']"
proof -
  have e: "on_event (event booted) = [0, 1]" "on_api_call (event booted) = [0, 1]"
     "map endpoint (apis (contexts booted ! 1)) = [''getUser'']"
    by code_simp+
  show ?thesis
    using dispose_removes_only_root_handlers [of "[Use NotesComponent, Use UsersComponent, Start,
                 AddEndpoint 1 \<lparr>info_name = ''getUser'', info_params = []\<rparr> getUser]" 1,
                 folded booted_def] e
    by (simp add: Let_def)
qed

section \<open>Engine start\<close>




section \<open>Registering a name twice\<close>

lemma assign_assign [simp]: "assign k v2 (assign k v1 ps) = assign k v2 ps"
  by (induction k v1 ps rule: assign.induct) auto

lemma map_of_assign [simp]: "map_of (assign k v ps) k = Some v"
  by (induction k v ps rule: assign.induct) auto




section \<open>Publish and subscribe\<close>











section \<open>The life of a pending call\<close>








lemma waiting_ok_call:
  assumes "waiting_ok s"
  shows "waiting_ok (snd (call c e p t i s))"
proof -
  obtain js ss where "call c e p t i s =
     (length (calls s),
      s\<lparr>calls := calls s @
           [\<lparr>pc_id = i, pc_settled = ss,
             pc_timeoutHandle = Armed (clock s + (case t of None \<Rightarrow> 1000 | Some t' \<Rightarrow> t'))\<rparr>],
        event := (event s)\<lparr>on_api_result := on_api_result (event s) @ [length (calls s)]\<rparr>,
        handlerJobs := handlerJobs s @ js\<rparr>)"
    using call_shape by blast
  then show ?thesis
    using assms by (auto simp: waiting_ok_def nth_append)
qed






section \<open>Calls that nobody answers\<close>









section \<open>Result frames and the listeners of pending calls\<close>

lemma handler_settles_resolves:
  assumes "waiting_ok s" "j < length (handlerJobs s)" "\<not> job_done (handlerJobs s ! j)"
    and "job_promise (handlerJobs s ! j) = Resolves v"
  shows "on_api_result (event (step (HandlerSettles j) s)) = []"
    and "k < length (calls s) \<Longrightarrow>
         calls (step (HandlerSettles j) s) ! k =
           (if k \<in> set (on_api_result (event s))
            then deliver \<lparr>rf_component = name (contexts s ! job_ctx (handlerJobs s ! j)),
                          rf_id = job_frame_id (handlerJobs s ! j), rf_value = v\<rparr> (calls s ! k)
            else calls s ! k)"
    and "results (step (HandlerSettles j) s) =
           results s @ [\<lparr>rf_component = name (contexts s ! job_ctx (handlerJobs s ! j)),
                          rf_id = job_frame_id (handlerJobs s ! j), rf_value = v\<rparr>]"
proof -
  let ?f = "\<lparr>rf_component = name (contexts s ! job_ctx (handlerJobs s ! j)),
             rf_id = job_frame_id (handlerJobs s ! j), rf_value = v\<rparr>"
  let ?s' = "s\<lparr>handlerJobs := (handlerJobs s)[j := (handlerJobs s ! j)\<lparr>job_done := True\<rparr>]\<rparr>"
  have hs: "step (HandlerSettles j) s = emit_api_result ?f ?s'"
    using assms(2-4) by (simp add: handler_settles_def Let_def)
  have d: "distinct (on_api_result (event ?s'))"
    using assms(1) by (simp add: waiting_ok_def)
  show "on_api_result (event (step (HandlerSettles j) s)) = []"
    unfolding hs using d by (simp add: emit_api_result_eq)
  show "results (step (HandlerSettles j) s) = results s @ [?f]"
    unfolding hs by (simp add: emit_api_result_frame)
  show "calls (step (HandlerSettles j) s) ! k =
           (if k \<in> set (on_api_result (event s)) then deliver ?f (calls s ! k) else calls s ! k)"
    if "k < length (calls s)"
    unfolding hs using d that by (simp add: emit_api_result_eq nth_fold_update)
qed

text \<open>
  Every result frame takes the listeners of all pending calls off the emitter, whichever
  call it answers: in any system the engine can reach, once a handler's promise has
  resolved and its frame was emitted, no call is listening for result frames any more.
\<close>

lemma result_frame_unregisters_every_listener:
  assumes "j < length (handlerJobs (run pre new_ComponentEngine))"
    and "\<not> job_done (handlerJobs (run pre new_ComponentEngine) ! j)"
    and "job_promise (handlerJobs (run pre new_ComponentEngine) ! j) = Resolves v"
  shows "on_api_result (event (run (pre @ [HandlerSettles j]) new_ComponentEngine)) = []"
  using handler_settles_resolves(1)[OF reachable_ok(1) assms] by simp

text \<open>
  A call answered before anything else happens does get the handler's value: when the
  promise is pending on return from \<open>call\<close> and a handler promise queued under the
  call's id resolves as the next step, the call's promise is resolved with exactly the
  value that promise resolved with, and the timer is cleared.
\<close>

lemma call_answered_next_resolves:
  assumes "slot_of (pc_settled (calls s1 ! k)) = Pending"
    and "j < length (handlerJobs s1)" "\<not> job_done (handlerJobs s1 ! j)"
    and "job_promise (handlerJobs s1 ! j) = Resolves v" "job_frame_id (handlerJobs s1 ! j) = i"
    and "s1 = snd (call component ep params timeout i (run pre new_ComponentEngine))"
    and "k = fst (call component ep params timeout i (run pre new_ComponentEngine))"
  shows "pc_settled (calls (step (HandlerSettles j) s1) ! k) = [Resolve v] \<and>
         pc_timeoutHandle (calls (step (HandlerSettles j) s1) ! k) = Cleared"
proof -
  define s0 where "s0 = run pre new_ComponentEngine"
  have ok1: "waiting_ok s1"
    unfolding assms(6) by (intro waiting_ok_call reachable_ok)
  obtain js ss d where shape: "call component ep params timeout i s0 =
     (length (calls s0),
      s0\<lparr>calls := calls s0 @ [\<lparr>pc_id = i, pc_settled = ss, pc_timeoutHandle = Armed d\<rparr>],
         event := (event s0)\<lparr>on_api_result := on_api_result (event s0) @ [length (calls s0)]\<rparr>,
         handlerJobs := handlerJobs s0 @ js\<rparr>)"
    using call_shape[of component ep params timeout i s0] by blast
  have k: "k = length (calls s0)" "k < length (calls s1)" "k \<in> set (on_api_result (event s1))"
    and pc: "calls s1 ! k = \<lparr>pc_id = i, pc_settled = ss, pc_timeoutHandle = Armed d\<rparr>"
    by (simp_all add: assms(6,7) s0_def [symmetric] shape)
  have "slot_of ss = Pending"
    using assms(1) by (simp add: pc)
  then have "ss = []"
    by (cases ss rule: slot_of.cases) simp_all
  then show ?thesis
    using handler_settles_resolves(2)[OF ok1 assms(2-4) k(2)] k(3) assms(5)
    by (simp add: pc deliver_def)
qed

text \<open>
  A handler whose promise rejects is absorbed where it ran: the \<open>catch\<close> callback logs the
  error and that is all; no result frame is emitted and no call is touched.
\<close>

lemma handler_rejection_absorbed:
  assumes "j < length (handlerJobs s)" "\<not> job_done (handlerJobs s ! j)"
    and "job_promise (handlerJobs s ! j) = Rejects err"
  shows "step (HandlerSettles j) s =
           s\<lparr>handlerJobs := (handlerJobs s)[j := (handlerJobs s ! j)\<lparr>job_done := True\<rparr>],
             console := console s @ [err]\<rparr>"
  using assms by (simp add: handler_settles_def Let_def)

text \<open>
  Claim C1 fails on the code.  \<open>notes\<close> makes two calls A and B to \<open>users.getUser\<close>, with
  distinct ids, and both are pending.  The result frame of A arrives: A is resolved, and
  the \<open>once\<close> wrapper of B, invoked with the same frame, has removed B's listener before
  the listener ignored the frame; no listener is left.  The result frame of B is emitted
  at once, well within B's timeout, and nobody receives it: B stays pending, and when its
  timer fires B is rejected with the timeout error.
\<close>

theorem foreign_result_frame_consumes_listener:
  "let s  = run [Call 0 ''users'' ''getUser'' None None ''id-a'',
                 Call 0 ''users'' ''getUser'' None None ''id-b''] booted;
       sA = step (HandlerSettles 0) s;
       sB = step (HandlerSettles 1) sA;
       sT = run [Elapse 1000, TimerFires 1] sB
   in on_api_result (event s) = [0, 1] \<and>
      map pc_id (calls s) = [''id-a'', ''id-b''] \<and>
      map rf_id (results sA) = [''id-a''] \<and>
      slot_of (pc_settled (calls sA ! 0)) = Resolved user \<and>
      on_api_result (event sA) = [] \<and>
      slot_of (pc_settled (calls sA ! 1)) = Pending \<and>
      map rf_id (results sB) = [''id-a'', ''id-b''] \<and>
      clock sB = 0 \<and>
      pc_timeoutHandle (calls sB ! 1) = Armed 1000 \<and>
      slot_of (pc_settled (calls sB ! 1)) = Pending \<and>
      slot_of (pc_settled (calls sT ! 1)) = Rejected (VError ''timeout'')"
  by code_simp

text \<open>
  Claim C2 fails on the code, by the defect of C1.  \<open>users\<close> has the endpoint \<open>getUser\<close>
  and its handler resolves with \<open>user\<close>.  \<open>users\<close> itself and \<open>notes\<close> each call it,
  \<open>notes\<close> with a timeout of 5000.  Both handler promises resolve at time 0; the frame for
  the first call is emitted first.  The promise of \<open>notes\<close>'s call is never resolved: it
  is rejected with the timeout error when its timer fires at 5000.
\<close>

theorem resolved_endpoint_yet_timeout:
  "let s  = run [Call 1 ''users'' ''getUser'' None None ''id-x'',
                 Call 0 ''users'' ''getUser'' (Some []) (Some 5000) ''id-y''] booted;
       s' = run [HandlerSettles 0, HandlerSettles 1] s;
       sT = run [Elapse 5000, TimerFires 1] s'
   in map endpoint (apis (contexts booted ! 1)) = [''getUser''] \<and>
      map (\<lambda>j. (job_ctx j, job_frame_id j, job_promise j)) (handlerJobs s) =
        [(1, ''id-x'', Resolves user), (1, ''id-y'', Resolves user)] \<and>
      map job_done (handlerJobs s') = [True, True] \<and>
      map (\<lambda>f. (rf_id f, rf_value f)) (results s') = [(''id-x'', user), (''id-y'', user)] \<and>
      clock s' = 0 \<and>
      pc_timeoutHandle (calls s' ! 1) = Armed 5000 \<and>
      slot_of (pc_settled (calls s' ! 1)) = Pending \<and>
      slot_of (pc_settled (calls sT ! 1)) = Rejected (VError ''timeout'')"
  by code_simp

text \<open>
  Claim C4 fails on the code for a handler that throws before it returns a promise.
  \<open>users\<close> publishes \<open>explode\<close>, \<open>notes\<close> calls it.  The exception is not caught in
  \<open>rootApiHandler\<close> (nothing is logged, no promise is queued): it leaves \<open>emit\<close> inside
  the executor of the call's promise, so the promise is rejected with the handler's own
  error when \<open>call\<close> returns, at time 0, not with the timeout error at time 1000.  The
  timer still fires later and rejects again, which a settled promise ignores.
\<close>

theorem thrown_handler_error_reaches_caller:
  "let s0 = step (AddEndpoint 1 \<lparr>info_name = ''explode'', info_params = []\<rparr> explode) booted;
       s  = step (Call 0 ''users'' ''explode'' None None ''id-1'') s0;
       sT = run [Elapse 1000, TimerFires 0] s
   in map endpoint (apis (contexts s0 ! 1)) = [''getUser'', ''explode''] \<and>
      clock s = 0 \<and> console s = [] \<and> handlerJobs s = [] \<and> results s = [] \<and>
      slot_of (pc_settled (calls s ! 0)) = Rejected (VError ''boom'') \<and>
      pc_timeoutHandle (calls s ! 0) = Armed 1000 \<and>
      pc_settled (calls sT ! 0) = [Reject (VError ''boom''), Reject (VError ''timeout'')] \<and>
      slot_of (pc_settled (calls sT ! 0)) = Rejected (VError ''boom'') \<and>
      console sT = [] \<and> results sT = []"
  by code_simp

end
